theory Spec2Isabelle
  imports Complex_Main "HOL-Library.Sublist"
begin

section \<open>Constants of the streaming client\<close>

text \<open>
  The constants of \<^verbatim>\<open>src/unnamed/part_001\<close> (lines 7-25), the latest variant of the
  \<^verbatim>\<open>WarpPage\<close> component. Times are milliseconds, as \<^verbatim>\<open>Date.now()\<close> counts them.
\<close>

definition FRAME_INTERVAL :: int where "FRAME_INTERVAL = 250"
definition MAX_BUFFER_SIZE :: nat where "MAX_BUFFER_SIZE = 16"
definition DISPLAY_DURATION :: int where "DISPLAY_DURATION = 0"
definition SCROLL_DURATION :: int where "SCROLL_DURATION = 5"
definition MAX_RECONNECT_ATTEMPTS :: nat where "MAX_RECONNECT_ATTEMPTS = 10"
definition INITIAL_RECONNECT_DELAY :: nat where "INITIAL_RECONNECT_DELAY = 1000"
definition MAX_RECONNECT_DELAY :: nat where "MAX_RECONNECT_DELAY = 30000"

section \<open>Inbound frame queue and display scheduler\<close>

text \<open>
  A decoded frame (an \<^verbatim>\<open>HTMLImageElement\<close>) is identified by a number. The two render
  surfaces are the two canvas elements that \<^verbatim>\<open>currentCanvasRef\<close> and
  \<^verbatim>\<open>nextCanvasRef\<close> point to; a ref is \<^verbatim>\<open>null\<close> until its element is mounted.
\<close>

type_synonym frame = nat

datatype canvas = FirstCanvas | SecondCanvas

text \<open>
  The repository holds two versions of the decode-completion handler \<^verbatim>\<open>img.onload\<close>.
  \<^item> \<^verbatim>\<open>part_001\<close> lines 364-368 (and \<^verbatim>\<open>web/src/components/WarpPage.tsx\<close> line 1060):
    \<^verbatim>\<open>frameQueueRef.current.push(img)\<close>, with no test of the length.
  \<^item> \<^verbatim>\<open>web/src/components/WarpPage.tsx\<close> lines 277-283 (and
    \<^verbatim>\<open>src/components/WarpPage.tsx\<close> lines 213-216):
    \<^verbatim>\<open>if (frameQueueRef.current.length < MAX_BUFFER_SIZE) frameQueueRef.current = [...frameQueueRef.current, img]\<close>.
\<close>

datatype variant = Part001 | WebGuarded

definition img_onload :: "variant \<Rightarrow> frame list \<Rightarrow> frame \<Rightarrow> frame list" where
  "img_onload v q img =
     (case v of
        Part001 \<Rightarrow> q @ [img]
      | WebGuarded \<Rightarrow> (if length q < MAX_BUFFER_SIZE then q @ [img] else q))"

text \<open>
  The overflow skip of \<^verbatim>\<open>displayNextFrame\<close> (\<^verbatim>\<open>part_001\<close> lines 208-213):
  \<^verbatim>\<open>if (q.length > MAX_BUFFER_SIZE / 2) q = q.slice(Math.floor(q.length / 2))\<close>.
  \<^verbatim>\<open>MAX_BUFFER_SIZE / 2\<close> is the exact value 8.
\<close>

definition overflow_skip :: "frame list \<Rightarrow> frame list" where
  "overflow_skip q =
     (if length q > MAX_BUFFER_SIZE div 2 then drop (length q div 2) q else q)"

text \<open>
  The scheduler's state. \<open>fades\<close> holds the pending \<^verbatim>\<open>fade\<close> callbacks, one per
  transition begun and not yet completed, each with the \<^verbatim>\<open>opacity\<close> variable of its own
  closure. The source subtracts the double 0.05; the model subtracts the exact fraction,
  so the number of fade steps may differ by one from the browser's, which no statement
  below depends on. \<open>drawn\<close> and \<open>swaps\<close> observe the run: the frames drawn on the next
  surface (\<^verbatim>\<open>nextCtx.drawImage\<close>) and the number of surface-role swaps. The writes to
  \<^verbatim>\<open>style.opacity\<close> and \<^verbatim>\<open>style.zIndex\<close> are not modelled.
\<close>

record display_state =
  frameQueue :: "frame list"
  isTransitioning :: bool
  lastTransitionTime :: int
  currentCanvas :: "canvas option"
  nextCanvas :: "canvas option"
  fades :: "rat list"
  drawn :: "frame list"
  swaps :: nat

definition initial :: "int \<Rightarrow> canvas option \<Rightarrow> canvas option \<Rightarrow> display_state" where
  "initial t0 cur nxt =
     \<lparr>frameQueue = [], isTransitioning = False, lastTransitionTime = t0,
      currentCanvas = cur, nextCanvas = nxt, fades = [], drawn = [], swaps = 0\<rparr>"

text \<open>
  \<^verbatim>\<open>displayNextFrame\<close> (\<^verbatim>\<open>part_001\<close> lines 200-292), run once per display refresh.
  \<open>now\<close> is the reading of \<^verbatim>\<open>Date.now()\<close>; \<open>ctx\<close> says whether
  \<^verbatim>\<open>nextCanvas.getContext('2d')\<close> gave a context.
\<close>

definition displayNextFrame :: "int \<Rightarrow> bool \<Rightarrow> display_state \<Rightarrow> display_state" where
  "displayNextFrame now ctx s =
     (if \<not> isTransitioning s \<and> length (frameQueue s) > 0
          \<and> now - lastTransitionTime s \<ge> DISPLAY_DURATION
      then
        (let q = overflow_skip (frameQueue s) in
         case q of
           [] \<Rightarrow> s\<lparr>frameQueue := q\<rparr>
         | nextFrame # _ \<Rightarrow>
             (if ctx \<and> nextCanvas s \<noteq> None
              then s\<lparr>frameQueue := q, isTransitioning := True,
                     fades := fades s @ [1], drawn := drawn s @ [nextFrame]\<rparr>
              else s\<lparr>frameQueue := q\<rparr>))
      else s)"

text \<open>
  One run of the \<open>i\<close>-th pending \<^verbatim>\<open>fade\<close> callback (\<^verbatim>\<open>part_001\<close> lines 258-285): a
  fade step while the opacity is positive and the current surface exists, the swap, the
  pop (\<^verbatim>\<open>slice(1)\<close>) and the reset of the flag otherwise. A callback that does not
  exist does nothing.
\<close>

definition fade :: "nat \<Rightarrow> int \<Rightarrow> display_state \<Rightarrow> display_state" where
  "fade i now s =
     (if i < length (fades s) then
        (let opacity = fades s ! i in
         if opacity > 0 \<and> currentCanvas s \<noteq> None
         then s\<lparr>fades := (fades s)[i := opacity - 1 / 20]\<rparr>
         else s\<lparr>currentCanvas := nextCanvas s, nextCanvas := currentCanvas s,
                frameQueue := drop 1 (frameQueue s), lastTransitionTime := now,
                isTransitioning := False,
                fades := take i (fades s) @ drop (Suc i) (fades s),
                swaps := Suc (swaps s)\<rparr>)
      else s)"

text \<open>
  The events of the single-threaded event loop that touch the scheduler: a decode
  completion, a display-refresh tick, and a run of a pending fade callback.
\<close>

datatype event = Decoded frame | DisplayTick int bool | FadeTick nat int

fun step :: "variant \<Rightarrow> display_state \<Rightarrow> event \<Rightarrow> display_state" where
  "step v s (Decoded img) = s\<lparr>frameQueue := img_onload v (frameQueue s) img\<rparr>"
| "step v s (DisplayTick now ctx) = displayNextFrame now ctx s"
| "step v s (FadeTick i now) = fade i now s"

definition run :: "variant \<Rightarrow> display_state \<Rightarrow> event list \<Rightarrow> display_state" where
  "run v s es = foldl (step v) s es"

text \<open>The frames of a run in the order in which their decodes complete.\<close>

fun completions :: "event list \<Rightarrow> frame list" where
  "completions [] = []"
| "completions (Decoded img # es) = img # completions es"
| "completions (_ # es) = completions es"

text \<open>
  For a binary message \<^verbatim>\<open>ws.onmessage\<close> (\<^verbatim>\<open>part_001\<close> lines 358-370) creates an
  \<^verbatim>\<open>Image\<close>, sets its \<^verbatim>\<open>onload\<close> and starts the load with \<^verbatim>\<open>img.src = url\<close>; it
  touches neither the queue nor the scheduler. Each load completes on its own, later, and
  nothing in the code orders the completions: \<open>loading\<close> holds the images whose load is
  pending, in the order of their messages, and the event \<open>Loaded i\<close> is the completion
  of the \<open>i\<close>-th of them, which runs its \<^verbatim>\<open>onload\<close>. An image whose load fails stays
  pending (no \<^verbatim>\<open>onerror\<close> is set). \<open>loaded\<close> observes the run: the frames in the order
  in which their loads completed. Text messages (the pong) do not reach the queue and are
  not modelled. \<open>Refresh\<close> and \<open>FadeCallback\<close> are the display tick and the run of a
  fade callback.
\<close>

record inbound_state =
  loading :: "frame list"
  loaded :: "frame list"
  display :: display_state

definition inbound_initial :: "int \<Rightarrow> canvas option \<Rightarrow> canvas option \<Rightarrow> inbound_state" where
  "inbound_initial t0 cur nxt = \<lparr>loading = [], loaded = [], display = initial t0 cur nxt\<rparr>"

datatype inbound_event =
    Message frame
  | Loaded nat
  | Refresh int bool
  | FadeCallback nat int

fun inbound_step :: "variant \<Rightarrow> inbound_state \<Rightarrow> inbound_event \<Rightarrow> inbound_state" where
  "inbound_step v st (Message img) = st\<lparr>loading := loading st @ [img]\<rparr>"
| "inbound_step v st (Loaded i) =
     (if i < length (loading st)
      then st\<lparr>loading := take i (loading st) @ drop (Suc i) (loading st),
              loaded := loaded st @ [loading st ! i],
              display := step v (display st) (Decoded (loading st ! i))\<rparr>
      else st)"
| "inbound_step v st (Refresh now ctx) =
     st\<lparr>display := step v (display st) (DisplayTick now ctx)\<rparr>"
| "inbound_step v st (FadeCallback i now) =
     st\<lparr>display := step v (display st) (FadeTick i now)\<rparr>"

definition inbound_run :: "variant \<Rightarrow> inbound_state \<Rightarrow> inbound_event list \<Rightarrow> inbound_state" where
  "inbound_run v st es = foldl (inbound_step v) st es"

text \<open>
  The arrival sequence: the frames in the order of their messages. \<open>fifo_loads\<close> says
  that every load that completes is the oldest one pending, that is, that the loads
  complete in the order of the messages.
\<close>

fun arrivals :: "inbound_event list \<Rightarrow> frame list" where
  "arrivals [] = []"
| "arrivals (Message img # es) = img # arrivals es"
| "arrivals (_ # es) = arrivals es"

fun fifo_loads :: "inbound_event list \<Rightarrow> bool" where
  "fifo_loads [] = True"
| "fifo_loads (Loaded i # es) = (i = 0 \<and> fifo_loads es)"
| "fifo_loads (_ # es) = fifo_loads es"

text \<open>
  The invariant of the scheduler, for the frames \<open>arr\<close> decoded so far: while a
  transition is in flight there is exactly one pending fade callback and the frame drawn
  last is still the head of the queue; the frames drawn followed by the frames still
  waiting are a subsequence of \<open>arr\<close>.
\<close>

definition sched_inv :: "display_state \<Rightarrow> frame list \<Rightarrow> bool" where
  "sched_inv s arr =
     (if isTransitioning s
      then length (fades s) = 1 \<and> drawn s \<noteq> [] \<and>
           (case frameQueue s of
              [] \<Rightarrow> False
            | f # rest \<Rightarrow> f = last (drawn s) \<and> subseq (drawn s @ rest) arr)
      else fades s = [] \<and> subseq (drawn s @ frameQueue s) arr)"

text \<open>A sample run: one frame decoded, a transition begun, twenty fade steps.\<close>

definition fade_run :: "event list" where
  "fade_run = [Decoded 1, DisplayTick 5 True,
     FadeTick 0 6, FadeTick 0 6, FadeTick 0 6, FadeTick 0 6, FadeTick 0 6,
     FadeTick 0 6, FadeTick 0 6, FadeTick 0 6, FadeTick 0 6, FadeTick 0 6,
     FadeTick 0 6, FadeTick 0 6, FadeTick 0 6, FadeTick 0 6, FadeTick 0 6,
     FadeTick 0 6, FadeTick 0 6, FadeTick 0 6, FadeTick 0 6, FadeTick 0 6]"

section \<open>Reconnection with backoff\<close>

text \<open>
  The part of the session that \<^verbatim>\<open>ws.onopen\<close> and \<^verbatim>\<open>ws.onclose\<close> of
  \<^verbatim>\<open>connectWebSocket\<close> change (\<^verbatim>\<open>part_001\<close> lines 324-333 and 383-402): the counter
  \<^verbatim>\<open>reconnectAttemptsRef.current\<close> and the status shown. What \<^verbatim>\<open>onclose\<close> asks of
  the host is a value: a reconnection after a delay (\<^verbatim>\<open>setTimeout(connectWebSocket, delay)\<close>)
  or the restart of the page (\<^verbatim>\<open>window.location.reload()\<close>). The timers that
  \<^verbatim>\<open>onopen\<close> starts and the authentication message it sends are not modelled.
  \<^verbatim>\<open>Math.pow(2, n)\<close> is a double: it is the exact power for \<open>n < 1024\<close> and infinite
  beyond, where the minimum with \<^verbatim>\<open>MAX_RECONNECT_DELAY\<close> is the same as for the exact power.
\<close>

datatype ws_status = WsConnecting | WsConnected | WsDisconnected

datatype close_action = Reconnect nat | Reload

record session =
  reconnectAttempts :: nat
  wsStatus :: ws_status

definition ws_onopen :: "session \<Rightarrow> session" where
  "ws_onopen s = s\<lparr>reconnectAttempts := 0, wsStatus := WsConnected\<rparr>"

definition ws_onclose :: "session \<Rightarrow> session \<times> close_action" where
  "ws_onclose s =
     (let delay = min (INITIAL_RECONNECT_DELAY * 2 ^ reconnectAttempts s) MAX_RECONNECT_DELAY;
          s' = s\<lparr>wsStatus := WsDisconnected, reconnectAttempts := reconnectAttempts s + 1\<rparr>
      in if reconnectAttempts s' \<le> MAX_RECONNECT_ATTEMPTS
         then (s', Reconnect delay)
         else (s', Reload))"

text \<open>The session after \<open>n\<close> closes in a row, no open between them.\<close>

fun closes :: "nat \<Rightarrow> session \<Rightarrow> session" where
  "closes 0 s = s"
| "closes (Suc n) s = fst (ws_onclose (closes n s))"

section \<open>Audio cycle and captions\<close>

text \<open>
  An audio chunk is identified by a number, a blob is the list of its chunks. An entry of
  the caption store has the text and the time of its creation (the source adds a field
  \<^verbatim>\<open>id\<close> that nothing reads; it is left out).
\<close>

type_synonym chunk = nat
type_synonym blob = "chunk list"

record TranscriptEntry =
  entry_text :: string
  entry_timestamp :: int

text \<open>
  What the upload to \<^verbatim>\<open>/transcribe\<close> gives back: the status 401; any other status with a
  body that parses as JSON, of which the field \<^verbatim>\<open>text\<close> is read (absent is \<open>None\<close>);
  or a failure of \<^verbatim>\<open>fetch\<close> or of the parsing, which the \<^verbatim>\<open>catch\<close> logs.
\<close>

datatype response = Unauthorized | Body "string option" | Failure

text \<open>
  The state of the component that the audio cycle reads and writes. A run of the audio
  effect (\<^verbatim>\<open>part_001\<close> lines 517-595) creates a \<^verbatim>\<open>MediaRecorder\<close> and gives it an
  \<^verbatim>\<open>onstop\<close> handler, which calls the function \<^verbatim>\<open>transcribe\<close> of the render in which
  the effect ran; that function reads the constant \<^verbatim>\<open>serverPassword\<close> of the same
  render. \<open>recorders\<close> holds, for each recorder created, the value of
  \<^verbatim>\<open>serverPassword\<close> bound in its handler. The effect returns no cleanup (the function
  that \<^verbatim>\<open>initAudio\<close> returns is the result of a promise that nothing reads), so a recorder
  and its interval stay when the state changes. \<open>uploads\<close> and \<open>played\<close> observe the run:
  the requests sent (bearer and blob) and the blobs built and played back.
\<close>

record component =
  serverPassword :: "string option"
  isAuthenticated :: bool
  authToken :: "string option"
  transcripts :: "TranscriptEntry list"
  totalTranscripts :: nat
  audioChunks :: "chunk list"
  recorders :: "string option list"
  uploads :: "(string \<times> blob) list"
  played :: "blob list"

definition mounted :: component where
  "mounted = \<lparr>serverPassword = None, isAuthenticated = False, authToken = None,
      transcripts = [], totalTranscripts = 0, audioChunks = [], recorders = [],
      uploads = [], played = []\<rparr>"

text \<open>\<^verbatim>\<open>addTranscript\<close> (\<^verbatim>\<open>part_001\<close> lines 110-117), at \<^verbatim>\<open>Date.now() = now\<close>.\<close>

definition addTranscript :: "string \<Rightarrow> int \<Rightarrow> component \<Rightarrow> component" where
  "addTranscript txt now s =
     s\<lparr>totalTranscripts := totalTranscripts s + 1,
       transcripts :=
         filter (\<lambda>t. now - entry_timestamp t < SCROLL_DURATION * 1000)
           (transcripts s @ [\<lparr>entry_text = txt, entry_timestamp = now\<rparr>])\<rparr>"

text \<open>
  \<^verbatim>\<open>transcribe\<close> (\<^verbatim>\<open>part_001\<close> lines 412-442). \<open>sp\<close> is the \<^verbatim>\<open>serverPassword\<close> that the
  function reads, \<open>resp\<close> what the upload gives back, \<open>now\<close> the time at which the
  entry is made. \<^verbatim>\<open>!serverPassword\<close> holds of \<^verbatim>\<open>null\<close> and of the empty string;
  \<^verbatim>\<open>data.text\<close> is falsy when absent or empty.
\<close>

definition transcribe :: "string option \<Rightarrow> blob \<Rightarrow> response \<Rightarrow> int \<Rightarrow> component \<Rightarrow> component" where
  "transcribe sp audioBlob resp now s =
     (case sp of
        None \<Rightarrow> s
      | Some pw \<Rightarrow>
          if pw = [] then s
          else
            (let s1 = s\<lparr>uploads := uploads s @ [(pw, audioBlob)]\<rparr> in
             case resp of
               Unauthorized \<Rightarrow> s1\<lparr>isAuthenticated := False, serverPassword := None\<rparr>
             | Body t \<Rightarrow>
                 (case t of
                    None \<Rightarrow> s1
                  | Some txt \<Rightarrow> if txt \<noteq> [] then addTranscript txt now s1 else s1)
             | Failure \<Rightarrow> s1))"

text \<open>
  \<^verbatim>\<open>mediaRecorder.onstop\<close> of the \<open>i\<close>-th recorder (\<^verbatim>\<open>part_001\<close> lines 543-561);
  \<^verbatim>\<open>mediaRecorder.ondataavailable\<close> (lines 537-541); the reset of the chunks in
  \<^verbatim>\<open>startRecording\<close> (lines 564-569).
\<close>

definition onstop :: "nat \<Rightarrow> response \<Rightarrow> int \<Rightarrow> component \<Rightarrow> component" where
  "onstop i resp now s =
     (if i < length (recorders s) then
        (if length (audioChunks s) = 0 then s
         else
           (let audioBlob = audioChunks s;
                s1 = s\<lparr>audioChunks := [], played := played s @ [audioBlob]\<rparr>
            in transcribe (recorders s ! i) audioBlob resp now s1))
      else s)"

definition ondataavailable :: "nat \<Rightarrow> chunk \<Rightarrow> component \<Rightarrow> component" where
  "ondataavailable sz c s =
     (if sz > 0 then s\<lparr>audioChunks := audioChunks s @ [c]\<rparr> else s)"

definition startRecording :: "component \<Rightarrow> component" where
  "startRecording s = s\<lparr>audioChunks := []\<rparr>"

text \<open>
  \<^verbatim>\<open>handleAuthenticated\<close> (\<^verbatim>\<open>part_001\<close> lines 704-708) with the render that follows it.
  The three state updates are applied together (the application is mounted with
  \<^verbatim>\<open>ReactDOM.createRoot\<close>, \<^verbatim>\<open>part_001\<close> line 988, which batches them), and the audio effect, whose dependency is
  \<^verbatim>\<open>isAuthenticated\<close>, runs when that value has changed to true: if the microphone is
  granted (\<open>mic\<close>), it creates a recorder whose handler is bound to the new password
  and starts it with \<^verbatim>\<open>startRecording()\<close> (line 582), which empties the chunks.
\<close>

definition handleAuthenticated :: "string \<Rightarrow> bool \<Rightarrow> component \<Rightarrow> component" where
  "handleAuthenticated password mic s =
     (let s1 = s\<lparr>isAuthenticated := True, authToken := Some password,
                  serverPassword := Some password\<rparr>
      in if \<not> isAuthenticated s \<and> mic
         then startRecording (s1\<lparr>recorders := recorders s @ [Some password]\<rparr>)
         else s1)"

datatype audio_event =
    HandleAuthenticated string bool
  | DataAvailable nat chunk
  | StartRecording
  | OnStop nat response int

fun audio_step :: "component \<Rightarrow> audio_event \<Rightarrow> component" where
  "audio_step s (HandleAuthenticated password mic) = handleAuthenticated password mic s"
| "audio_step s (DataAvailable sz c) = ondataavailable sz c s"
| "audio_step s StartRecording = startRecording s"
| "audio_step s (OnStop i resp now) = onstop i resp now s"

definition audio_run :: "component \<Rightarrow> audio_event list \<Rightarrow> component" where
  "audio_run s es = foldl audio_step s es"

text \<open>
  The older handler of \<^verbatim>\<open>web/src/components/WarpPage.tsx\<close> (lines 456-463) makes an entry
  from \<^verbatim>\<open>data.text.trim()\<close> when \<^verbatim>\<open>data.text && data.text.trim()\<close>. Of the white space
  that \<^verbatim>\<open>trim\<close> removes, the characters below 256 are tab, line feed, vertical tab, form
  feed, carriage return, space and no-break space.
\<close>

definition is_space :: "char \<Rightarrow> bool" where
  "is_space c = (of_char c \<in> {9, 10, 11, 12, 13, 32, 160 :: nat})"

definition trim :: "string \<Rightarrow> string" where
  "trim s = rev (dropWhile is_space (rev (dropWhile is_space s)))"

definition caption_web :: "string option \<Rightarrow> int \<Rightarrow> component \<Rightarrow> component" where
  "caption_web t now s =
     (case t of
        None \<Rightarrow> s
      | Some txt \<Rightarrow> if txt \<noteq> [] \<and> trim txt \<noteq> [] then addTranscript (trim txt) now s else s)"

section \<open>Outbound frames\<close>

text \<open>
  \<^verbatim>\<open>sendFrame\<close> (\<^verbatim>\<open>part_001\<close> lines 473-496) runs every \<^verbatim>\<open>FRAME_INTERVAL / 2\<close>. It
  returns at once when less than \<^verbatim>\<open>FRAME_INTERVAL\<close> has passed since
  \<^verbatim>\<open>lastFrameTime\<close>; otherwise it draws the video and asks for the encoding
  (\<^verbatim>\<open>toBlob\<close>), whose callback asks for the bytes (\<^verbatim>\<open>blob.arrayBuffer()\<close>) if the socket
  is open, whose callback sends them and sets \<^verbatim>\<open>lastFrameTime\<close> to the time of the tick.
  The two callbacks run later, as events of their own. \<open>encoding\<close> and \<open>buffering\<close>
  hold the tick times of the frames whose callbacks are pending; \<open>sent\<close> observes the
  run: the tick times of the frames given to an open socket.
  A \<^verbatim>\<open>send\<close> on a socket that is closing or closed discards the data, on a connecting
  socket it throws, so that the assignment after it does not run.
\<close>

datatype ready_state = CONNECTING | OPEN | CLOSING | CLOSED

record sender =
  lastFrameTime :: int
  encoding :: "int list"
  buffering :: "int list"
  sent :: "int list"

definition sender_init :: sender where
  "sender_init = \<lparr>lastFrameTime = 0, encoding = [], buffering = [], sent = []\<rparr>"

definition sendFrame :: "ws_status \<Rightarrow> int \<Rightarrow> bool \<Rightarrow> sender \<Rightarrow> sender" where
  "sendFrame ws now video s =
     (if now - lastFrameTime s < FRAME_INTERVAL then s
      else if video \<and> ws = WsConnected then s\<lparr>encoding := encoding s @ [now]\<rparr>
      else s)"

definition toBlob_callback :: "nat \<Rightarrow> bool \<Rightarrow> ready_state option \<Rightarrow> sender \<Rightarrow> sender" where
  "toBlob_callback i blob ready s =
     (if i < length (encoding s) then
        (let now = encoding s ! i;
             s1 = s\<lparr>encoding := take i (encoding s) @ drop (Suc i) (encoding s)\<rparr>
         in if blob \<and> ready = Some OPEN then s1\<lparr>buffering := buffering s1 @ [now]\<rparr> else s1)
      else s)"

definition arrayBuffer_then :: "nat \<Rightarrow> ready_state option \<Rightarrow> sender \<Rightarrow> sender" where
  "arrayBuffer_then i ready s =
     (if i < length (buffering s) then
        (let now = buffering s ! i;
             s1 = s\<lparr>buffering := take i (buffering s) @ drop (Suc i) (buffering s)\<rparr>
         in case ready of
              None \<Rightarrow> s1\<lparr>lastFrameTime := now\<rparr>
            | Some CONNECTING \<Rightarrow> s1
            | Some OPEN \<Rightarrow> s1\<lparr>sent := sent s1 @ [now], lastFrameTime := now\<rparr>
            | Some _ \<Rightarrow> s1\<lparr>lastFrameTime := now\<rparr>)
      else s)"

datatype send_event =
    SendTick int bool
  | BlobReady nat bool "ready_state option"
  | BufferReady nat "ready_state option"

fun send_step :: "ws_status \<Rightarrow> sender \<Rightarrow> send_event \<Rightarrow> sender" where
  "send_step ws s (SendTick now video) = sendFrame ws now video s"
| "send_step ws s (BlobReady i blob ready) = toBlob_callback i blob ready s"
| "send_step ws s (BufferReady i ready) = arrayBuffer_then i ready s"

definition send_run :: "ws_status \<Rightarrow> sender \<Rightarrow> send_event list \<Rightarrow> sender" where
  "send_run ws s es = foldl (send_step ws) s es"

text \<open>
  The frames sent are \<open>spaced\<close> when the tick times of consecutive ones are at least
  \<^verbatim>\<open>FRAME_INTERVAL\<close> apart. \<open>tick_sync\<close> is a tick whose two callbacks run before the
  next event, and \<open>sync_inv\<close> the invariant of the runs made of such ticks.
\<close>

fun spaced :: "int list \<Rightarrow> bool" where
  "spaced [] = True"
| "spaced [x] = True"
| "spaced (x # y # ys) = (y - x \<ge> FRAME_INTERVAL \<and> spaced (y # ys))"

definition tick_sync ::
  "ws_status \<Rightarrow> sender \<Rightarrow> int \<times> bool \<times> bool \<times> ready_state option \<times> ready_state option \<Rightarrow> sender" where
  "tick_sync ws s p =
     (case p of (now, video, blob, r1, r2) \<Rightarrow>
        arrayBuffer_then 0 r2 (toBlob_callback 0 blob r1 (sendFrame ws now video s)))"

definition sync_inv :: "sender \<Rightarrow> bool" where
  "sync_inv s =
     (encoding s = [] \<and> buffering s = [] \<and> spaced (sent s)
      \<and> (if sent s = [] then True else last (sent s) \<le> lastFrameTime s))"

section \<open>Bound of the frame queue\<close>

lemma length_img_onload_guarded:
  "length q \<le> MAX_BUFFER_SIZE \<Longrightarrow> length (img_onload WebGuarded q img) \<le> MAX_BUFFER_SIZE"
  by (simp add: img_onload_def)

lemma length_overflow_skip_le: "length (overflow_skip q) \<le> length q"
  by (simp add: overflow_skip_def)

lemma length_displayNextFrame_le:
  "length (frameQueue (displayNextFrame now ctx s)) \<le> length (frameQueue s)"
  using length_overflow_skip_le [of "frameQueue s"]
  by (simp add: displayNextFrame_def Let_def split: list.splits)

lemma length_fade_le: "length (frameQueue (fade i now s)) \<le> length (frameQueue s)"
  by (simp add: fade_def Let_def)

lemma step_guarded_bound:
  "length (frameQueue s) \<le> MAX_BUFFER_SIZE \<Longrightarrow>
   length (frameQueue (step WebGuarded s e)) \<le> MAX_BUFFER_SIZE"
proof (cases e)
  case (Decoded img)
  assume "length (frameQueue s) \<le> MAX_BUFFER_SIZE"
  with Decoded show ?thesis by (simp add: length_img_onload_guarded)
next
  case (DisplayTick now ctx)
  assume "length (frameQueue s) \<le> MAX_BUFFER_SIZE"
  with DisplayTick length_displayNextFrame_le [of now ctx s] show ?thesis by simp
next
  case (FadeTick i now)
  assume "length (frameQueue s) \<le> MAX_BUFFER_SIZE"
  with FadeTick length_fade_le [of i now s] show ?thesis by simp
qed

lemma run_guarded_bound:
  "length (frameQueue s) \<le> MAX_BUFFER_SIZE \<Longrightarrow>
   length (frameQueue (run WebGuarded s es)) \<le> MAX_BUFFER_SIZE"
  unfolding run_def
  by (induction es arbitrary: s) (simp_all add: step_guarded_bound)

lemma run_append: "run v s (es @ fs) = run v (run v s es) fs"
  by (simp add: run_def)

lemma queue_decodes_part001:
  "frameQueue (run Part001 s (map Decoded fs)) = frameQueue s @ fs"
  unfolding run_def
  by (induction fs arbitrary: s) (simp_all add: img_onload_def)

lemma queue_decodes_guarded:
  "frameQueue (run WebGuarded s (map Decoded fs)) =
     frameQueue s @ take (MAX_BUFFER_SIZE - length (frameQueue s)) fs"
  unfolding run_def
proof (induction fs arbitrary: s)
  case Nil
  then show ?case by simp
next
  case (Cons f fs)
  show ?case
  proof (cases "length (frameQueue s) < MAX_BUFFER_SIZE")
    case True
    then obtain k where k: "MAX_BUFFER_SIZE - length (frameQueue s) = Suc k"
      by (metis Suc_diff_Suc)
    then have k': "MAX_BUFFER_SIZE - Suc (length (frameQueue s)) = k"
      by arith
    from True k k' show ?thesis
      using Cons.IH [of "s\<lparr>frameQueue := frameQueue s @ [f]\<rparr>"]
      by (simp add: img_onload_def)
  next
    case False
    then show ?thesis
      using Cons.IH [of s] by (simp add: img_onload_def)
  qed
qed

text \<open>
  Claim C1: for every sequence of decode completions and display ticks the queue never
  holds more than \<open>MAX_BUFFER_SIZE = 16\<close> frames, a decoded frame being appended only
  when the queue is shorter than that. The guarded handler of
  \<^verbatim>\<open>web/src/components/WarpPage.tsx\<close> keeps the bound on every run
  (\<open>run_guarded_bound\<close>). The handler of \<^verbatim>\<open>part_001\<close> appends with no test: from the
  empty queue, 17 decode completions with no display tick between them leave 17 frames in
  the queue.
\<close>

theorem part001_queue_exceeds_bound:
  "length (frameQueue (run Part001 (initial 0 (Some FirstCanvas) (Some SecondCanvas))
      (map Decoded [1, 2, 3, 4, 5, 6, 7, 8, 9, 10, 11, 12, 13, 14, 15, 16, 17]))) = 17
   \<and> \<not> 17 \<le> MAX_BUFFER_SIZE"
  by (simp add: run_def initial_def img_onload_def MAX_BUFFER_SIZE_def)

text \<open>
  Claim C2, as stated: from the empty queue, 20 frames decoded with no display tick leave
  the 16 newest frames, the 4 oldest being dropped. Neither handler does that: the guarded
  one keeps the 16 oldest, the one of \<^verbatim>\<open>part_001\<close> keeps all 20.
\<close>

theorem twenty_frames_counterexample:
  "frameQueue (run WebGuarded (initial 0 (Some FirstCanvas) (Some SecondCanvas))
      (map Decoded [1, 2, 3, 4, 5, 6, 7, 8, 9, 10, 11, 12, 13, 14, 15, 16, 17, 18, 19, 20])) \<noteq> [5, 6, 7, 8, 9, 10, 11, 12, 13, 14, 15, 16, 17, 18, 19, 20]
   \<and> frameQueue (run Part001 (initial 0 (Some FirstCanvas) (Some SecondCanvas))
      (map Decoded [1, 2, 3, 4, 5, 6, 7, 8, 9, 10, 11, 12, 13, 14, 15, 16, 17, 18, 19, 20])) \<noteq> [5, 6, 7, 8, 9, 10, 11, 12, 13, 14, 15, 16, 17, 18, 19, 20]"
  by (simp add: run_def initial_def img_onload_def MAX_BUFFER_SIZE_def)

text \<open>
  Claim C2, amended: with the guarded handler, from the empty queue, 20 frames decoded
  with no display tick leave the 16 oldest frames in their arrival order; the 4 newest
  are dropped.
\<close>

theorem twenty_frames_guarded:
  "length fs = 20 \<Longrightarrow>
   frameQueue (run WebGuarded (initial t0 cur nxt) (map Decoded fs)) = take 16 fs
   \<and> length (take 16 fs) = 16 \<and> length (drop 16 fs) = 4 \<and> take 16 fs @ drop 16 fs = fs"
  by (simp add: queue_decodes_guarded initial_def MAX_BUFFER_SIZE_def)

theorem twenty_frames_guarded_witness:
  "length [1, 2, 3, 4, 5, 6, 7, 8, 9, 10, 11, 12, 13, 14, 15, 16, 17, 18, 19, 20] = 20 \<and>
   frameQueue (run WebGuarded (initial 0 (Some FirstCanvas) (Some SecondCanvas))
      (map Decoded [1, 2, 3, 4, 5, 6, 7, 8, 9, 10, 11, 12, 13, 14, 15, 16, 17, 18, 19, 20])) = [1, 2, 3, 4, 5, 6, 7, 8, 9, 10, 11, 12, 13, 14, 15, 16]"
  using twenty_frames_guarded [of "[1, 2, 3, 4, 5, 6, 7, 8, 9, 10, 11, 12, 13, 14, 15, 16, 17, 18, 19, 20]" 0 "Some FirstCanvas" "Some SecondCanvas"]
  by simp

section \<open>Overflow skip\<close>

lemma overflow_skip_drop:
  "length q > MAX_BUFFER_SIZE div 2 \<Longrightarrow> overflow_skip q = drop (length q div 2) q"
  by (simp add: overflow_skip_def)

lemma overflow_skip_bound:
  "length q \<le> MAX_BUFFER_SIZE + 2 \<Longrightarrow> length (overflow_skip q) \<le> MAX_BUFFER_SIZE div 2 + 1"
  by (auto simp add: overflow_skip_def MAX_BUFFER_SIZE_def)

text \<open>
  Claim C3: when a transition begins with a queue of length \<open>n > B/2\<close>, the oldest
  \<open>n div 2\<close> frames are discarded, the rest kept in order, and the queue is then at most
  \<open>B/2 + 1 = 9\<close> long. The skip is as claimed (\<open>overflow_skip_drop\<close>), and the bound
  holds for every queue of at most \<open>B + 2\<close> frames (\<open>overflow_skip_bound\<close>). In
  \<^verbatim>\<open>part_001\<close> the queue is not bounded by \<open>B\<close>: after 19 decode completions with no
  display tick, the tick that begins the transition leaves 10 frames.
\<close>

theorem part001_skip_exceeds_bound:
  "frameQueue (run Part001 (initial 0 (Some FirstCanvas) (Some SecondCanvas))
      (map Decoded [1, 2, 3, 4, 5, 6, 7, 8, 9, 10, 11, 12, 13, 14, 15, 16, 17, 18, 19] @ [DisplayTick 0 True])) = [10, 11, 12, 13, 14, 15, 16, 17, 18, 19]
   \<and> \<not> length [10, 11, 12, 13, 14, 15, 16, 17, 18, 19] \<le> MAX_BUFFER_SIZE div 2 + 1"
  by (simp add: run_def displayNextFrame_def initial_def img_onload_def
     overflow_skip_def MAX_BUFFER_SIZE_def DISPLAY_DURATION_def)

section \<open>The display scheduler: one transition at a time, frames in order\<close>

lemma completions_append: "completions (es @ fs) = completions es @ completions fs"
  by (induction es rule: completions.induct) simp_all

lemma subseq_drop: "subseq (drop n xs) xs"
  by (metis append_take_drop_id subseq_drop_many subseq_order.order_refl)

lemma subseq_overflow_skip: "subseq (overflow_skip q) q"
  by (simp add: overflow_skip_def subseq_drop)

lemma overflow_skip_nonempty: "q \<noteq> [] \<Longrightarrow> overflow_skip q \<noteq> []"
  by (cases q) (auto simp add: overflow_skip_def)

lemma sched_inv_initial: "sched_inv (initial t0 cur nxt) []"
  by (simp add: sched_inv_def initial_def)

lemma img_onload_cases:
  "img_onload v q img = q \<or> img_onload v q img = q @ [img]"
  by (cases v) (simp_all add: img_onload_def)

lemma subseq_snoc_both: "subseq xs ys \<Longrightarrow> subseq (xs @ [x]) (ys @ [x])"
  by (rule list_emb_append_mono) simp_all

lemma sched_inv_onload:
  assumes "sched_inv s arr"
  shows "sched_inv (s\<lparr>frameQueue := img_onload v (frameQueue s) img\<rparr>) (arr @ [img])"
proof (cases "isTransitioning s")
  case False
  with assms have sub: "subseq (drawn s @ frameQueue s) arr" and nf: "fades s = []"
    by (simp_all add: sched_inv_def)
  from sub have "subseq (drawn s @ frameQueue s) (arr @ [img])"
    by (rule subseq_rev_drop_many)
  moreover from sub have "subseq (drawn s @ frameQueue s @ [img]) (arr @ [img])"
    using subseq_snoc_both [of "drawn s @ frameQueue s" arr img] by simp
  ultimately show ?thesis
    using False nf img_onload_cases [of v "frameQueue s" img]
    by (auto simp add: sched_inv_def)
next
  case True
  with assms obtain f rest where q: "frameQueue s = f # rest" and f: "f = last (drawn s)"
    and sub: "subseq (drawn s @ rest) arr" and len: "length (fades s) = 1" and d: "drawn s \<noteq> []"
    by (auto simp add: sched_inv_def split: list.splits)
  from sub have "subseq (drawn s @ rest) (arr @ [img])"
    by (rule subseq_rev_drop_many)
  moreover from sub have "subseq (drawn s @ rest @ [img]) (arr @ [img])"
    using subseq_snoc_both [of "drawn s @ rest" arr img] by simp
  ultimately show ?thesis
    using True q f len d img_onload_cases [of v "frameQueue s" img]
    by (auto simp add: sched_inv_def)
qed

lemma sched_inv_display:
  assumes "sched_inv s arr"
  shows "sched_inv (displayNextFrame now ctx s) arr"
proof (cases "\<not> isTransitioning s \<and> length (frameQueue s) > 0
          \<and> now - lastTransitionTime s \<ge> DISPLAY_DURATION")
  case False
  with assms show ?thesis by (auto simp add: displayNextFrame_def)
next
  case True
  then have idle: "\<not> isTransitioning s" and ne: "frameQueue s \<noteq> []" by auto
  from assms idle have sub: "subseq (drawn s @ frameQueue s) arr" and nofade: "fades s = []"
    by (simp_all add: sched_inv_def)
  have "subseq (drawn s @ overflow_skip (frameQueue s)) (drawn s @ frameQueue s)"
    by (simp add: subseq_append' subseq_overflow_skip)
  from this sub have sub': "subseq (drawn s @ overflow_skip (frameQueue s)) arr"
    by (rule subseq_order.order_trans)
  from ne obtain f rest where q: "overflow_skip (frameQueue s) = f # rest"
    using overflow_skip_nonempty [of "frameQueue s"] by (cases "overflow_skip (frameQueue s)") auto
  from True q sub' idle nofade show ?thesis
    by (simp add: displayNextFrame_def Let_def sched_inv_def)
qed

lemma sched_inv_fade:
  assumes "sched_inv s arr"
  shows "sched_inv (fade i now s) arr"
proof (cases "i < length (fades s)")
  case False
  with assms show ?thesis by (simp add: fade_def)
next
  case True
  with assms have tr: "isTransitioning s" and i: "i = 0" and len: "length (fades s) = 1"
    by (auto simp add: sched_inv_def split: if_splits)
  from assms tr obtain f rest where q: "frameQueue s = f # rest"
    and sub: "subseq (drawn s @ rest) arr" and d: "drawn s \<noteq> []" and fl: "f = last (drawn s)"
    by (auto simp add: sched_inv_def split: list.splits)
  from len obtain x where f: "fades s = [x]"
    by (cases "fades s") auto
  from tr sub f i q d fl show ?thesis
    by (simp add: fade_def Let_def sched_inv_def)
qed

lemma sched_inv_step:
  "sched_inv s arr \<Longrightarrow> sched_inv (step v s e) (arr @ completions [e])"
  by (cases e) (simp_all add: sched_inv_onload sched_inv_display sched_inv_fade)

lemma sched_inv_run:
  "sched_inv (run v (initial t0 cur nxt) es) (completions es)"
proof (induction es rule: rev_induct)
  case Nil
  then show ?case by (simp add: run_def sched_inv_initial)
next
  case (snoc e es)
  then show ?case
    using sched_inv_step [of "run v (initial t0 cur nxt) es" "completions es" v e]
    by (simp add: run_def completions_append)
qed

lemma subseq_appendL: "subseq (xs @ ys) zs \<Longrightarrow> subseq xs zs"
  by (metis append_Nil2 list_emb_Nil list_emb_append_mono subseq_order.order_refl subseq_order.order_trans)

lemma step_fades_grow:
  "length (fades s) < length (fades (step v s e)) \<Longrightarrow>
   \<not> isTransitioning s \<and> isTransitioning (step v s e)"
  by (cases e)
     (auto simp add: displayNextFrame_def fade_def Let_def split: if_splits list.splits)

lemma step_swap:
  assumes "sched_inv s arr" and "swaps (step v s e) \<noteq> swaps s"
  shows "isTransitioning s \<and> \<not> isTransitioning (step v s e) \<and> fades (step v s e) = []
         \<and> frameQueue (step v s e) = drop 1 (frameQueue s)
         \<and> currentCanvas (step v s e) = nextCanvas s
         \<and> nextCanvas (step v s e) = currentCanvas s"
proof (cases e)
  case (Decoded img)
  with assms show ?thesis by simp
next
  case (DisplayTick now ctx)
  with assms show ?thesis
    by (auto simp add: displayNextFrame_def Let_def split: if_splits list.splits)
next
  case (FadeTick i now)
  with assms(2) have i: "i < length (fades s)"
    by (auto simp add: fade_def split: if_splits)
  with assms(1) have tr: "isTransitioning s" and len: "length (fades s) = 1"
    by (auto simp add: sched_inv_def split: if_splits)
  with i FadeTick assms(2) show ?thesis
    by (auto simp add: fade_def Let_def split: if_splits)
qed

lemma step_no_swap_in_flight:
  assumes "isTransitioning s" and "swaps (step v s e) = swaps s"
  shows "prefix (frameQueue s) (frameQueue (step v s e)) \<and> isTransitioning (step v s e)"
proof (cases e)
  case (Decoded img)
  with assms show ?thesis
    using img_onload_cases [of v "frameQueue s" img] by auto
next
  case (DisplayTick now ctx)
  with assms show ?thesis by (simp add: displayNextFrame_def)
next
  case (FadeTick i now)
  with assms show ?thesis
    by (auto simp add: fade_def Let_def split: if_splits)
qed

lemma fade_run_state:
  "run Part001 (initial 0 (Some FirstCanvas) (Some SecondCanvas)) fade_run =
     \<lparr>frameQueue = [1], isTransitioning = True, lastTransitionTime = 0,
      currentCanvas = Some FirstCanvas, nextCanvas = Some SecondCanvas,
      fades = [0], drawn = [1], swaps = 0\<rparr>"
  by (simp add: fade_run_def run_def initial_def img_onload_def displayNextFrame_def
      overflow_skip_def MAX_BUFFER_SIZE_def DISPLAY_DURATION_def fade_def Let_def)

text \<open>
  Claim C5: the scheduler begins a transition only while \<open>isTransitioning\<close> is false, so
  at most one transition is in flight, and the swap of the surface roles and the pop of the
  queue happen only when the transition in flight completes. For every state \<open>s\<close> that
  a run of events reaches and every next event: there is at most one pending fade
  callback, and one exactly when the flag is set; a step that adds a fade callback starts
  from a cleared flag and sets it; a step that swaps the surfaces starts with the flag set,
  clears it, leaves no fade callback, exchanges the two surfaces and removes exactly the
  head of the queue; every other step taken while the flag is set keeps the flag and only
  extends the queue at its tail.
\<close>

theorem single_transition_in_flight:
  assumes "s = run v (initial t0 cur nxt) es" and "s' = step v s e"
  shows "length (fades s) \<le> 1
     \<and> (isTransitioning s \<longleftrightarrow> fades s \<noteq> [])
     \<and> (length (fades s) < length (fades s') \<longrightarrow> \<not> isTransitioning s \<and> isTransitioning s')
     \<and> (swaps s' \<noteq> swaps s \<longrightarrow>
          isTransitioning s \<and> \<not> isTransitioning s' \<and> fades s' = []
          \<and> frameQueue s' = drop 1 (frameQueue s)
          \<and> currentCanvas s' = nextCanvas s \<and> nextCanvas s' = currentCanvas s)
     \<and> (isTransitioning s \<and> swaps s' = swaps s \<longrightarrow>
          prefix (frameQueue s) (frameQueue s') \<and> isTransitioning s')"
proof -
  have inv: "sched_inv s (completions es)"
    unfolding assms(1) by (rule sched_inv_run)
  then have "length (fades s) \<le> 1" and "isTransitioning s \<longleftrightarrow> fades s \<noteq> []"
    by (auto simp add: sched_inv_def split: if_splits)
  moreover have "length (fades s) < length (fades s') \<longrightarrow> \<not> isTransitioning s \<and> isTransitioning s'"
    unfolding assms(2) using step_fades_grow [of s v e] by blast
  moreover have "swaps s' \<noteq> swaps s \<longrightarrow>
          isTransitioning s \<and> \<not> isTransitioning s' \<and> fades s' = []
          \<and> frameQueue s' = drop 1 (frameQueue s)
          \<and> currentCanvas s' = nextCanvas s \<and> nextCanvas s' = currentCanvas s"
    unfolding assms(2) using step_swap [OF inv, of v e] by blast
  moreover have "isTransitioning s \<and> swaps s' = swaps s \<longrightarrow>
          prefix (frameQueue s) (frameQueue s') \<and> isTransitioning s'"
    unfolding assms(2) using step_no_swap_in_flight [of s v e] by blast
  ultimately show ?thesis by blast
qed

theorem single_transition_in_flight_witness:
  "(let s = run Part001 (initial 0 (Some FirstCanvas) (Some SecondCanvas)) [Decoded 1];
        s' = step Part001 s (DisplayTick 5 True)
    in length (fades s) < length (fades s') \<and> \<not> isTransitioning s \<and> isTransitioning s')
   \<and> (let s = run Part001 (initial 0 (Some FirstCanvas) (Some SecondCanvas)) fade_run;
        s' = step Part001 s (FadeTick 0 7)
    in swaps s' \<noteq> swaps s \<and> isTransitioning s \<and> \<not> isTransitioning s'
       \<and> frameQueue s' = [] \<and> currentCanvas s' = Some SecondCanvas)
   \<and> (let s = run Part001 (initial 0 (Some FirstCanvas) (Some SecondCanvas)) fade_run;
        s' = step Part001 s (Decoded 2)
    in isTransitioning s \<and> swaps s' = swaps s \<and> frameQueue s' = [1, 2] \<and> isTransitioning s')"
  using single_transition_in_flight [OF refl refl, of Part001 0 "Some FirstCanvas" "Some SecondCanvas" "[Decoded 1]" "DisplayTick 5 True"]
    single_transition_in_flight [OF refl refl, of Part001 0 "Some FirstCanvas" "Some SecondCanvas" fade_run "FadeTick 0 7"]
    single_transition_in_flight [OF refl refl, of Part001 0 "Some FirstCanvas" "Some SecondCanvas" fade_run "Decoded 2"]
  by (simp add: fade_run_state Let_def)
    (simp add: run_def initial_def img_onload_def displayNextFrame_def
      overflow_skip_def MAX_BUFFER_SIZE_def DISPLAY_DURATION_def fade_def Let_def)

lemma drawn_subseq_completions:
  "subseq (drawn (run v (initial t0 cur nxt) es)) (completions es)"
  using sched_inv_run [of v t0 cur nxt es]
  by (auto simp add: sched_inv_def split: if_splits list.splits dest: subseq_appendL)

lemma sched_inv_drawn: "sched_inv s arr \<Longrightarrow> subseq (drawn s) arr"
  by (auto simp add: sched_inv_def split: if_splits list.splits dest: subseq_appendL)

lemma inbound_inv_step:
  assumes "sched_inv (display st) (loaded st)"
  shows "sched_inv (display (inbound_step v st e)) (loaded (inbound_step v st e))"
proof (cases e)
  case (Message img)
  with assms show ?thesis by simp
next
  case (Loaded i)
  with assms show ?thesis
    using sched_inv_step [of "display st" "loaded st" v "Decoded (loading st ! i)"]
    by simp
next
  case (Refresh now ctx)
  with assms show ?thesis
    using sched_inv_step [of "display st" "loaded st" v "DisplayTick now ctx"]
    by simp
next
  case (FadeCallback i now)
  with assms show ?thesis
    using sched_inv_step [of "display st" "loaded st" v "FadeTick i now"]
    by simp
qed

lemma inbound_inv_run:
  "sched_inv (display st) (loaded st) \<Longrightarrow>
   sched_inv (display (inbound_run v st es)) (loaded (inbound_run v st es))"
  unfolding inbound_run_def
  by (induction es arbitrary: st) (simp_all add: inbound_inv_step)

lemma fifo_loads_order:
  "fifo_loads es \<Longrightarrow>
   loaded (inbound_run v st es) @ loading (inbound_run v st es)
     = loaded st @ loading st @ arrivals es"
  unfolding inbound_run_def
proof (induction es arbitrary: st)
  case Nil
  then show ?case by simp
next
  case (Cons e es)
  show ?case
  proof (cases e)
    case (Message img)
    with Cons show ?thesis by simp
  next
    case (Loaded i)
    with Cons.prems have i: "i = 0" and f: "fifo_loads es" by simp_all
    show ?thesis
    proof (cases "loading st")
      case Nil
      with Loaded i f Cons.IH [of st] show ?thesis by simp
    next
      case (Cons img rest)
      with Loaded i f
        Cons.IH [of "st\<lparr>loading := rest, loaded := loaded st @ [img],
                        display := step v (display st) (Decoded img)\<rparr>"]
      show ?thesis by simp
    qed
  next
    case (Refresh now ctx)
    with Cons show ?thesis by simp
  next
    case (FadeCallback i now)
    with Cons show ?thesis by simp
  qed
qed

text \<open>
  Claim C6, as stated: the frames displayed are a subsequence of the frames in their
  order of arrival. Two frames arrive, 1 then 2; the load of frame 2 completes first, then
  the load of frame 1; a transition shows the head of the queue, completes, and the next
  one shows the other frame. Frame 2 is displayed before frame 1.
\<close>

theorem reordered_loads_counterexample:
  "arrivals [Message 1, Message 2, Loaded 1, Loaded 0, Refresh 5 True,
      FadeCallback 0 6, FadeCallback 0 6, FadeCallback 0 6,
      FadeCallback 0 6, FadeCallback 0 6, FadeCallback 0 6,
      FadeCallback 0 6, FadeCallback 0 6, FadeCallback 0 6,
      FadeCallback 0 6, FadeCallback 0 6, FadeCallback 0 6,
      FadeCallback 0 6, FadeCallback 0 6, FadeCallback 0 6,
      FadeCallback 0 6, FadeCallback 0 6, FadeCallback 0 6,
      FadeCallback 0 6, FadeCallback 0 6, FadeCallback 0 6, Refresh 7 True] = [1, 2]
   \<and> drawn (display (inbound_run Part001 (inbound_initial 0 (Some FirstCanvas) (Some SecondCanvas))
      [Message 1, Message 2, Loaded 1, Loaded 0, Refresh 5 True,
      FadeCallback 0 6, FadeCallback 0 6, FadeCallback 0 6,
      FadeCallback 0 6, FadeCallback 0 6, FadeCallback 0 6,
      FadeCallback 0 6, FadeCallback 0 6, FadeCallback 0 6,
      FadeCallback 0 6, FadeCallback 0 6, FadeCallback 0 6,
      FadeCallback 0 6, FadeCallback 0 6, FadeCallback 0 6,
      FadeCallback 0 6, FadeCallback 0 6, FadeCallback 0 6,
      FadeCallback 0 6, FadeCallback 0 6, FadeCallback 0 6, Refresh 7 True])) = [2, 1]
   \<and> \<not> subseq [2, 1] [1, 2 :: frame]"
  by (simp add: inbound_run_def inbound_initial_def initial_def img_onload_def
      displayNextFrame_def overflow_skip_def MAX_BUFFER_SIZE_def DISPLAY_DURATION_def
      fade_def Let_def)

text \<open>
  Claim C6, amended: the frames displayed are a subsequence, in the same relative order,
  of the frames in the order in which their decodes complete (\<^verbatim>\<open>img.onload\<close>), which
  is the order of insertion into the queue; when the decodes complete in the order of
  arrival, the frames displayed are a subsequence of the arrival sequence. Frames may be
  dropped by the buffer or by the overflow skip. It holds for both versions of the decode
  handler and from any mounting of the canvases.
\<close>

theorem displayed_subseq_decoded:
  "subseq (drawn (display (inbound_run v (inbound_initial t0 cur nxt) es)))
          (loaded (inbound_run v (inbound_initial t0 cur nxt) es))
   \<and> (fifo_loads es \<longrightarrow>
        subseq (drawn (display (inbound_run v (inbound_initial t0 cur nxt) es))) (arrivals es))"
proof -
  let ?st = "inbound_run v (inbound_initial t0 cur nxt) es"
  have "sched_inv (display (inbound_initial t0 cur nxt)) (loaded (inbound_initial t0 cur nxt))"
    by (simp add: inbound_initial_def sched_inv_initial)
  then have "sched_inv (display ?st) (loaded ?st)"
    by (rule inbound_inv_run)
  then have d: "subseq (drawn (display ?st)) (loaded ?st)"
    by (rule sched_inv_drawn)
  have "subseq (drawn (display ?st)) (arrivals es)" if "fifo_loads es"
  proof -
    from that have "loaded ?st @ loading ?st = arrivals es"
      using fifo_loads_order [of es v "inbound_initial t0 cur nxt"]
      by (simp add: inbound_initial_def)
    then have "subseq (loaded ?st) (arrivals es)"
      by (metis subseq_rev_drop_many subseq_order.order_refl)
    with d show ?thesis
      by (rule subseq_order.order_trans)
  qed
  with d show ?thesis by blast
qed

theorem displayed_subseq_decoded_witness:
  "fifo_loads [Message 1, Message 2, Loaded 0, Loaded 0, Refresh 5 True,
      FadeCallback 0 6, FadeCallback 0 6, FadeCallback 0 6,
      FadeCallback 0 6, FadeCallback 0 6, FadeCallback 0 6,
      FadeCallback 0 6, FadeCallback 0 6, FadeCallback 0 6,
      FadeCallback 0 6, FadeCallback 0 6, FadeCallback 0 6,
      FadeCallback 0 6, FadeCallback 0 6, FadeCallback 0 6,
      FadeCallback 0 6, FadeCallback 0 6, FadeCallback 0 6,
      FadeCallback 0 6, FadeCallback 0 6, FadeCallback 0 6, Refresh 7 True]
   \<and> drawn (display (inbound_run Part001 (inbound_initial 0 (Some FirstCanvas) (Some SecondCanvas))
      [Message 1, Message 2, Loaded 0, Loaded 0, Refresh 5 True,
      FadeCallback 0 6, FadeCallback 0 6, FadeCallback 0 6,
      FadeCallback 0 6, FadeCallback 0 6, FadeCallback 0 6,
      FadeCallback 0 6, FadeCallback 0 6, FadeCallback 0 6,
      FadeCallback 0 6, FadeCallback 0 6, FadeCallback 0 6,
      FadeCallback 0 6, FadeCallback 0 6, FadeCallback 0 6,
      FadeCallback 0 6, FadeCallback 0 6, FadeCallback 0 6,
      FadeCallback 0 6, FadeCallback 0 6, FadeCallback 0 6, Refresh 7 True])) = [1, 2]
   \<and> subseq [1, 2] (arrivals [Message 1, Message 2, Loaded 0, Loaded 0, Refresh 5 True,
      FadeCallback 0 6, FadeCallback 0 6, FadeCallback 0 6,
      FadeCallback 0 6, FadeCallback 0 6, FadeCallback 0 6,
      FadeCallback 0 6, FadeCallback 0 6, FadeCallback 0 6,
      FadeCallback 0 6, FadeCallback 0 6, FadeCallback 0 6,
      FadeCallback 0 6, FadeCallback 0 6, FadeCallback 0 6,
      FadeCallback 0 6, FadeCallback 0 6, FadeCallback 0 6,
      FadeCallback 0 6, FadeCallback 0 6, FadeCallback 0 6, Refresh 7 True])"
  using displayed_subseq_decoded [of Part001 0 "Some FirstCanvas" "Some SecondCanvas"
      "[Message 1, Message 2, Loaded 0, Loaded 0, Refresh 5 True,
      FadeCallback 0 6, FadeCallback 0 6, FadeCallback 0 6,
      FadeCallback 0 6, FadeCallback 0 6, FadeCallback 0 6,
      FadeCallback 0 6, FadeCallback 0 6, FadeCallback 0 6,
      FadeCallback 0 6, FadeCallback 0 6, FadeCallback 0 6,
      FadeCallback 0 6, FadeCallback 0 6, FadeCallback 0 6,
      FadeCallback 0 6, FadeCallback 0 6, FadeCallback 0 6,
      FadeCallback 0 6, FadeCallback 0 6, FadeCallback 0 6, Refresh 7 True]"]
  by (simp add: inbound_run_def inbound_initial_def initial_def img_onload_def
      displayNextFrame_def overflow_skip_def MAX_BUFFER_SIZE_def DISPLAY_DURATION_def
      fade_def Let_def)

section \<open>Properties of the reconnection\<close>

lemma closes_after_open:
  "closes n (ws_onopen s) =
     \<lparr>reconnectAttempts = n, wsStatus = (if n = 0 then WsConnected else WsDisconnected)\<rparr>"
  by (induction n) (simp_all add: ws_onopen_def ws_onclose_def Let_def)

lemma reconnectAttempts_closes: "reconnectAttempts (closes n s) = reconnectAttempts s + n"
  by (induction n) (simp_all add: ws_onclose_def Let_def)

text \<open>
  Claim C4, as stated: for every \<open>k\<close> from 0 to \<open>MAX_RECONNECT_ATTEMPTS\<close>, the delay of
  the reconnection scheduled after the \<open>k\<close>-th close in a row is
  \<open>min (INITIAL_RECONNECT_DELAY * 2 ^ k) MAX_RECONNECT_DELAY\<close>. Counting the closes from
  0, the close that finds the counter at \<open>MAX_RECONNECT_ATTEMPTS = 10\<close> schedules nothing
  and restarts the page; counting them from 1, the first close schedules a delay of 1000,
  not of 2000.
\<close>

theorem backoff_counterexample:
  "snd (ws_onclose (closes MAX_RECONNECT_ATTEMPTS (ws_onopen \<lparr>reconnectAttempts = 0, wsStatus = WsConnecting\<rparr>)))
     \<noteq> Reconnect (min (INITIAL_RECONNECT_DELAY * 2 ^ MAX_RECONNECT_ATTEMPTS) MAX_RECONNECT_DELAY)
   \<and> snd (ws_onclose (closes 0 (ws_onopen \<lparr>reconnectAttempts = 0, wsStatus = WsConnecting\<rparr>)))
     \<noteq> Reconnect (min (INITIAL_RECONNECT_DELAY * 2 ^ 1) MAX_RECONNECT_DELAY)"
  by (simp add: closes_after_open ws_onclose_def Let_def MAX_RECONNECT_ATTEMPTS_def
      INITIAL_RECONNECT_DELAY_def MAX_RECONNECT_DELAY_def)

text \<open>
  Claim C4, amended: an open resets the counter to 0; each close increments it; the close
  that follows \<open>k\<close> closes in a row after an open (the counter is \<open>k\<close>) schedules a
  reconnection after \<open>min (INITIAL_RECONNECT_DELAY * 2 ^ k) MAX_RECONNECT_DELAY\<close> when
  \<open>k < MAX_RECONNECT_ATTEMPTS\<close>, and otherwise (the incremented counter exceeds
  \<open>MAX_RECONNECT_ATTEMPTS\<close>) schedules nothing and restarts the page.
\<close>

theorem reconnect_backoff:
  "reconnectAttempts (ws_onopen s) = 0
   \<and> reconnectAttempts (closes k (ws_onopen s)) = k
   \<and> reconnectAttempts (fst (ws_onclose (closes k (ws_onopen s)))) = k + 1
   \<and> snd (ws_onclose (closes k (ws_onopen s))) =
       (if k < MAX_RECONNECT_ATTEMPTS
        then Reconnect (min (INITIAL_RECONNECT_DELAY * 2 ^ k) MAX_RECONNECT_DELAY)
        else Reload)"
  by (simp add: reconnectAttempts_closes ws_onclose_def Let_def ws_onopen_def)

theorem reconnect_backoff_witness:
  "snd (ws_onclose (closes 3 (ws_onopen \<lparr>reconnectAttempts = 7, wsStatus = WsDisconnected\<rparr>)))
     = Reconnect 8000
   \<and> snd (ws_onclose (closes 5 (ws_onopen \<lparr>reconnectAttempts = 7, wsStatus = WsDisconnected\<rparr>)))
     = Reconnect 30000
   \<and> snd (ws_onclose (closes 10 (ws_onopen \<lparr>reconnectAttempts = 7, wsStatus = WsDisconnected\<rparr>)))
     = Reload"
  using reconnect_backoff [of "\<lparr>reconnectAttempts = 7, wsStatus = WsDisconnected\<rparr>" 3]
    reconnect_backoff [of "\<lparr>reconnectAttempts = 7, wsStatus = WsDisconnected\<rparr>" 5]
    reconnect_backoff [of "\<lparr>reconnectAttempts = 7, wsStatus = WsDisconnected\<rparr>" 10]
  by (simp add: MAX_RECONNECT_ATTEMPTS_def INITIAL_RECONNECT_DELAY_def MAX_RECONNECT_DELAY_def)

section \<open>Properties of the audio cycle\<close>

lemma transcribe_unauthorized:
  "sp = Some pw \<Longrightarrow> pw \<noteq> [] \<Longrightarrow>
   transcribe sp audioBlob Unauthorized now s =
     s\<lparr>uploads := uploads s @ [(pw, audioBlob)], isAuthenticated := False, serverPassword := None\<rparr>"
  by (simp add: transcribe_def)

lemma transcribe_no_password: "transcribe None audioBlob resp now s = s"
  by (simp add: transcribe_def)

text \<open>
  Claim C7: after an upload is answered with 401 the credential and the authentication
  state are invalidated and no entry is made from that segment; no later transcription
  attempt uploads while the credential stays invalidated. The first part holds
  (\<open>transcribe_unauthorized\<close>), and a call of \<^verbatim>\<open>transcribe\<close> that reads the invalidated
  credential uploads nothing (\<open>transcribe_no_password\<close>). But the recorder's handler
  calls the \<^verbatim>\<open>transcribe\<close> of the render in which it was installed, which still reads
  the old password: the segment that stops after the 401 is uploaded with it.
\<close>

theorem stale_credential_upload:
  "(let s1 = audio_run mounted
       [HandleAuthenticated ''pw'' True, DataAvailable 1 1, OnStop 0 Unauthorized 100];
        s2 = audio_run s1
       [StartRecording, DataAvailable 1 2, OnStop 0 Unauthorized 200]
    in serverPassword s1 = None \<and> \<not> isAuthenticated s1 \<and> transcripts s1 = []
       \<and> uploads s1 = [(''pw'', [1])]
       \<and> serverPassword s2 = None
       \<and> uploads s2 = [(''pw'', [1]), (''pw'', [2])])"
  by (simp add: audio_run_def mounted_def handleAuthenticated_def ondataavailable_def
      onstop_def transcribe_def startRecording_def Let_def)

lemma addTranscript_entry:
  "transcripts (addTranscript txt now s) =
     filter (\<lambda>t. now - entry_timestamp t < SCROLL_DURATION * 1000) (transcripts s)
       @ [\<lparr>entry_text = txt, entry_timestamp = now\<rparr>]
   \<and> totalTranscripts (addTranscript txt now s) = totalTranscripts s + 1"
  by (simp add: addTranscript_def SCROLL_DURATION_def)

lemma transcribe_body:
  "pw \<noteq> [] \<Longrightarrow>
   transcribe (Some pw) audioBlob (Body (Some txt)) now s =
     (if txt \<noteq> [] then addTranscript txt now (s\<lparr>uploads := uploads s @ [(pw, audioBlob)]\<rparr>)
      else s\<lparr>uploads := uploads s @ [(pw, audioBlob)]\<rparr>)"
  by (simp add: transcribe_def)

lemma caption_web_entry:
  "caption_web (Some txt) now s = (if trim txt \<noteq> [] then addTranscript (trim txt) now s else s)"
  by (auto simp add: caption_web_def trim_def)

text \<open>
  Claim C8: the text of a successful upload becomes an entry exactly when it is not empty
  after trimming; a text of white space only makes no entry. The older handler trims
  (\<open>caption_web_entry\<close>). \<^verbatim>\<open>transcribe\<close> of \<^verbatim>\<open>part_001\<close> tests \<^verbatim>\<open>data.text\<close> only:
  a text of two spaces becomes an entry, untrimmed.
\<close>

theorem whitespace_text_becomes_entry:
  "transcripts (transcribe (Some ''pw'') [1] (Body (Some ''  '')) 100 mounted)
     = [\<lparr>entry_text = ''  '', entry_timestamp = 100\<rparr>]
   \<and> trim ''  '' = []"
  by (simp add: transcribe_def mounted_def addTranscript_def SCROLL_DURATION_def
      trim_def is_space_def)

text \<open>
  Claim C10: when a recording stops with no chunk buffered, the stop handler returns at
  once: it builds no blob, sends no upload and makes no entry. The state, with the
  chunks, the blobs built, the uploads sent and the entries, is unchanged.
\<close>

theorem onstop_no_chunks:
  "audioChunks s = [] \<Longrightarrow>
   onstop i resp now s = s
   \<and> played (onstop i resp now s) = played s
   \<and> uploads (onstop i resp now s) = uploads s
   \<and> transcripts (onstop i resp now s) = transcripts s"
  by (simp add: onstop_def)

theorem onstop_no_chunks_witness:
  "audioChunks (handleAuthenticated ''pw'' True mounted) = []
   \<and> recorders (handleAuthenticated ''pw'' True mounted) = [Some ''pw'']
   \<and> uploads (onstop 0 (Body (Some ''hi'')) 100 (handleAuthenticated ''pw'' True mounted)) = []
   \<and> played (onstop 0 (Body (Some ''hi'')) 100 (handleAuthenticated ''pw'' True mounted)) = []
   \<and> transcripts (onstop 0 (Body (Some ''hi'')) 100 (handleAuthenticated ''pw'' True mounted)) = []"
proof -
  have h: "audioChunks (handleAuthenticated ''pw'' True mounted) = []"
    by (simp add: handleAuthenticated_def startRecording_def mounted_def)
  show ?thesis
    using h onstop_no_chunks [OF h, of 0 "Body (Some ''hi'')" 100]
    by (simp add: handleAuthenticated_def startRecording_def mounted_def)
qed

section \<open>Properties of the outbound pipeline\<close>

lemma sendFrame_gate:
  "sendFrame ws now video s \<noteq> s \<Longrightarrow>
   now - lastFrameTime s \<ge> FRAME_INTERVAL \<and> video \<and> ws = WsConnected
   \<and> sendFrame ws now video s = s\<lparr>encoding := encoding s @ [now]\<rparr>"
  by (auto simp add: sendFrame_def split: if_splits)

lemma spaced_snoc:
  "spaced (xs @ [y]) = (spaced xs \<and> (xs = [] \<or> y - last xs \<ge> FRAME_INTERVAL))"
  by (induction xs rule: spaced.induct) auto

lemma sync_inv_tick: 
  assumes "sync_inv s"
  shows "sync_inv (tick_sync ws s p)"
proof -
  obtain now video blob r1 r2 where p: "p = (now, video, blob, r1, r2)"
    by (cases p) auto
  from assms have e: "encoding s = []" and b: "buffering s = []" and sp: "spaced (sent s)"
    and l: "sent s \<noteq> [] \<Longrightarrow> last (sent s) \<le> lastFrameTime s"
    by (auto simp add: sync_inv_def split: if_splits)
  show ?thesis
  proof (cases "sendFrame ws now video s = s")
    case True
    with assms p e b show ?thesis
      by (simp add: tick_sync_def toBlob_callback_def arrayBuffer_then_def)
  next
    case False
    then have g: "now - lastFrameTime s \<ge> FRAME_INTERVAL"
      and s1: "sendFrame ws now video s = s\<lparr>encoding := [now]\<rparr>"
      using sendFrame_gate [of ws now video s] e by auto
    have pos: "FRAME_INTERVAL > 0" by (simp add: FRAME_INTERVAL_def)
    from g l have far: "sent s \<noteq> [] \<Longrightarrow> now - last (sent s) \<ge> FRAME_INTERVAL" by fastforce
    from g pos l have le: "sent s \<noteq> [] \<Longrightarrow> last (sent s) \<le> now" by fastforce
    show ?thesis
    proof (cases "blob \<and> r1 = Some OPEN")
      case False
      with p s1 e b sp l show ?thesis
        by (auto simp add: tick_sync_def toBlob_callback_def arrayBuffer_then_def Let_def
            sync_inv_def)
    next
      case True
      with p s1 e b have t: "tick_sync ws s p =
          arrayBuffer_then 0 r2 (s\<lparr>encoding := [], buffering := [now]\<rparr>)"
        by (simp add: tick_sync_def toBlob_callback_def Let_def)
      show ?thesis
      proof (cases r2)
        case None
        with t e b sp le show ?thesis
          by (auto simp add: arrayBuffer_then_def Let_def sync_inv_def)
      next
        case (Some r)
        with t e b sp le l far show ?thesis
          by (cases r)
             (auto simp add: arrayBuffer_then_def Let_def sync_inv_def spaced_snoc)
      qed
    qed
  qed
qed

lemma sync_inv_init: "sync_inv sender_init"
  by (simp add: sync_inv_def sender_init_def)

lemma sync_run_spaced: "spaced (sent (foldl (tick_sync ws) sender_init ps))"
proof -
  have "sync_inv (foldl (tick_sync ws) s ps)" if "sync_inv s" for s
    using that by (induction ps arbitrary: s) (simp_all add: sync_inv_tick)
  from this [OF sync_inv_init] show ?thesis by (simp add: sync_inv_def)
qed

text \<open>
  Claim C9: at a sending tick a frame is transmitted only if \<open>FRAME_INTERVAL\<close> has passed
  since the last frame sent and the connection is open, and is dropped otherwise, so that
  at most one frame is sent per \<open>FRAME_INTERVAL\<close>. The tick tests the time
  (\<open>sendFrame_gate\<close>), and the frames sent are spaced when the callbacks of each tick
  run before the next tick (\<open>sync_run_spaced\<close>). But \<^verbatim>\<open>lastFrameTime\<close> is set only when the bytes are sent, in a
  later callback: a tick that comes while the frame of the tick before is still being
  encoded passes the same test, and both frames are sent, taken 125 ms apart.
\<close>

theorem overlapping_encodes_send_twice:
  "sent (send_run WsConnected sender_init
      [SendTick 1000 True, SendTick 1125 True,
       BlobReady 0 True (Some OPEN), BlobReady 0 True (Some OPEN),
       BufferReady 0 (Some OPEN), BufferReady 0 (Some OPEN)]) = [1000, 1125]
   \<and> 1125 - 1000 < FRAME_INTERVAL"
  by (simp add: send_run_def sender_init_def sendFrame_def toBlob_callback_def
      arrayBuffer_then_def FRAME_INTERVAL_def Let_def)

end
